theory Spec2Isabelle
  imports Main "HOL-Library.Sublist"
begin

section \<open>JavaScript strings\<close>

text \<open>
  A JavaScript string is a sequence of UTF-16 code units. The strings modelled here are
  those whose code units are below 256 (the Latin-1 range, which contains every
  character a stack name or a region name can hold), so a string is a \<open>char list\<close>
  and a code unit is read with \<open>of_char\<close>.
\<close>

definition code_unit :: "char \<Rightarrow> nat" where
  "code_unit c = of_char c"

text \<open>
  \<open>String.prototype.toLowerCase\<close>: in the Latin-1 range the upper-case letters are
  \<open>A\<close> to \<open>Z\<close> (65 to 90) and the accented capitals 192 to 222 without the
  multiplication sign 215; each has its lower-case letter 32 code units above.
\<close>

definition upper_case_unit :: "char \<Rightarrow> bool" where
  "upper_case_unit c =
     (let n = code_unit c in
      (65 \<le> n \<and> n \<le> 90) \<or> (192 \<le> n \<and> n \<le> 214) \<or> (216 \<le> n \<and> n \<le> 222))"

definition toLowerCase_unit :: "char \<Rightarrow> char" where
  "toLowerCase_unit c = (if upper_case_unit c then char_of (code_unit c + 32) else c)"

definition toLowerCase :: "string \<Rightarrow> string" where
  "toLowerCase s = map toLowerCase_unit s"

text \<open>
  \<open>String.prototype.substring(start, end)\<close> for non-negative indices: both indices are
  clamped to the length of the string, and swapped when the first exceeds the second.
\<close>

definition substring :: "string \<Rightarrow> nat \<Rightarrow> nat \<Rightarrow> string" where
  "substring s start stop =
     (let a = min start (length s); b = min stop (length s)
      in take (max a b - min a b) (drop (min a b) s))"

text \<open>
  \<open>s.replace(/[...]/g, replacement)\<close> for a regular expression that is one character
  class and a replacement without \<open>$\<close>: every code unit the class matches is replaced,
  the others are kept.
\<close>

definition replace_class :: "(char \<Rightarrow> bool) \<Rightarrow> string \<Rightarrow> string \<Rightarrow> string" where
  "replace_class matches replacement s =
     concat (map (\<lambda>c. if matches c then replacement else [c]) s)"

text \<open>
  \<open>s.replace(/pattern/g, replacement)\<close> for a regular expression that is a non-empty
  literal word and a replacement without \<open>$\<close>: the string is scanned from the left,
  every match is replaced and the scan goes on behind the match, so that matches never
  overlap.
\<close>

function replace_word :: "string \<Rightarrow> string \<Rightarrow> string \<Rightarrow> string" where
  "replace_word pattern replacement [] = []"
| "replace_word pattern replacement (c # cs) =
     (if pattern \<noteq> [] \<and> prefix pattern (c # cs)
      then replacement @ replace_word pattern replacement (drop (length pattern) (c # cs))
      else c # replace_word pattern replacement cs)"
  by pat_completeness auto
termination
  by (relation "measure (\<lambda>(pattern, replacement, s). length s)") auto

section \<open>The domain prefix of the user pool (CognitoConstruct)\<close>

text \<open>The character class \<open>[a-z0-9-]\<close> of the regular expression \<open>/[^a-z0-9-]/g\<close>.\<close>

definition label_unit :: "char \<Rightarrow> bool" where
  "label_unit c =
     (let n = code_unit c in
      (code_unit CHR ''a'' \<le> n \<and> n \<le> code_unit CHR ''z'')
      \<or> (code_unit CHR ''0'' \<le> n \<and> n \<le> code_unit CHR ''9'')
      \<or> c = CHR ''-'')"

text \<open>
  \<open>Math.random().toString(36).substring(2, 8)\<close>. The random number and its rendering in
  radix 36 belong to the JavaScript runtime; the rendered string \<open>r\<close> is the argument.
  \<open>Math.random()\<close> is a number \<open>x\<close> with \<open>0 \<le> x < 1\<close>, and
  \<open>x.toString(36)\<close> is \<open>0\<close> when \<open>x\<close> is zero and otherwise \<open>0.\<close> followed by
  at least one digit of \<open>0-9a-z\<close> (a radix other than ten never gives an exponent):
  \<open>random_radix36\<close> holds of the strings of this shape.
\<close>

definition radix36_digit :: "char \<Rightarrow> bool" where
  "radix36_digit c = (c \<in> set ''0123456789abcdefghijklmnopqrstuvwxyz'')"

definition random_radix36 :: "string \<Rightarrow> bool" where
  "random_radix36 r =
     (r = ''0'' \<or> (take 2 r = ''0.'' \<and> drop 2 r \<noteq> [] \<and> list_all radix36_digit (drop 2 r)))"

definition randomSuffix :: "string \<Rightarrow> string" where
  "randomSuffix r = substring r 2 8"

text \<open>
  The template literal and the three calls chained to it, with \<open>stack.stackName\<close>,
  \<open>stack.region\<close> and the random suffix \<open>rnd\<close> as arguments.
\<close>

definition uniqueDomainPrefix :: "string \<Rightarrow> string \<Rightarrow> string \<Rightarrow> string" where
  "uniqueDomainPrefix stackName region rnd =
     replace_word ''cognito'' ''auth''
       (replace_class (\<lambda>c. \<not> label_unit c) ''-''
         (substring (toLowerCase stackName @ ''-'' @ region @ ''-'' @ rnd) 0 63))"

subsection \<open>The stages of the expression\<close>

text \<open>
  The value of the template literal and the three calls chained to it, each under a
  name of its own, written with the list functions that the calls amount to.
\<close>

definition stage_compose :: "string \<Rightarrow> string \<Rightarrow> string \<Rightarrow> string" where
  "stage_compose tenant region rnd =
     map toLowerCase_unit tenant @ [CHR ''-''] @ region @ [CHR ''-''] @ rnd"

definition stage_truncate :: "string \<Rightarrow> string" where
  "stage_truncate s = take 63 s"

definition stage_sanitize :: "string \<Rightarrow> string" where
  "stage_sanitize s = map (\<lambda>c. if label_unit c then c else CHR ''-'') s"

definition stage_debrand :: "string \<Rightarrow> string" where
  "stage_debrand s = replace_word ''cognito'' ''auth'' s"

text \<open>
  The values that the expression goes through, in the order of evaluation: the template
  literal, and the result of each of the three calls chained to it.
\<close>

definition uniqueDomainPrefix_chain :: "string \<Rightarrow> string \<Rightarrow> string \<Rightarrow> string list" where
  "uniqueDomainPrefix_chain stackName region rnd =
     (let template = toLowerCase stackName @ ''-'' @ region @ ''-'' @ rnd;
          truncated = substring template 0 63;
          replaced = replace_class (\<lambda>c. \<not> label_unit c) ''-'' truncated;
          renamed = replace_word ''cognito'' ''auth'' replaced
      in [template, truncated, replaced, renamed])"

subsection \<open>The steps of the specification\<close>

text \<open>
  The four steps as the specification words them, written without the functions above.
  Lower-casing is a table of the upper-case letters and their lower-case letters (the
  Latin alphabet and the accented capitals of Latin-1); the parts are joined by
  hyphens; truncation keeps at most 63 characters; a character is allowed when it is
  one of \<open>a-z\<close>, \<open>0-9\<close> and the hyphen; de-branding looks for the first occurrence
  of \<open>cognito\<close>, puts \<open>auth\<close> in its place and goes on behind it.
\<close>

definition spec_upper_letters :: string where
  "spec_upper_letters =
     ''ABCDEFGHIJKLMNOPQRSTUVWXYZ'' @ map char_of ([192..<215] @ [216..<223])"

definition spec_lower_letters :: string where
  "spec_lower_letters =
     ''abcdefghijklmnopqrstuvwxyz'' @ map char_of ([224..<247] @ [248..<255])"

definition spec_lower :: "char \<Rightarrow> char" where
  "spec_lower c =
     (case map_of (zip spec_upper_letters spec_lower_letters) c of None \<Rightarrow> c | Some l \<Rightarrow> l)"

fun spec_join :: "string list \<Rightarrow> string" where
  "spec_join [] = []"
| "spec_join [part] = part"
| "spec_join (part # parts) = part @ CHR ''-'' # spec_join parts"

definition spec_compose :: "string \<Rightarrow> string \<Rightarrow> string \<Rightarrow> string" where
  "spec_compose tenant region rnd = spec_join [map spec_lower tenant, region, rnd]"

definition spec_truncate :: "string \<Rightarrow> string" where
  "spec_truncate s = take 63 s"

definition spec_label_char :: "char \<Rightarrow> bool" where
  "spec_label_char c = (c \<in> set ''abcdefghijklmnopqrstuvwxyz0123456789-'')"

definition spec_sanitize :: "string \<Rightarrow> string" where
  "spec_sanitize s = map (\<lambda>c. if spec_label_char c then c else CHR ''-'') s"

fun find_word :: "string \<Rightarrow> string \<Rightarrow> nat option" where
  "find_word w [] = (if w = [] then Some 0 else None)"
| "find_word w (c # cs) =
     (if prefix w (c # cs) then Some 0 else map_option Suc (find_word w cs))"

function spec_debrand :: "string \<Rightarrow> string" where
  "spec_debrand s =
     (case find_word ''cognito'' s of
        None \<Rightarrow> s
      | Some i \<Rightarrow> take i s @ ''auth'' @ spec_debrand (drop (i + 7) s))"
  by pat_completeness auto
termination
proof (relation "measure length")
  show "wf (measure length)" by simp
next
  fix s :: string and i
  assume "find_word ''cognito'' s = Some i"
  then have "s \<noteq> []" by auto
  then show "(drop (i + 7) s, s) \<in> measure length" by simp
qed

declare spec_debrand.simps [simp del]

section \<open>The handler of the protected method (LambdaConstruct)\<close>

text \<open>
  The values of JavaScript that an event is made of. An object is the list of its
  members, in which the first entry of a key counts.
\<close>

datatype jsvalue =
    JUndefined
  | JNull
  | JBoolean bool
  | JNumber int
  | JString string
  | JArray "jsvalue list"
  | JObject "(string \<times> jsvalue) list"

datatype error = TypeError

text \<open>
  The property read \<open>v.key\<close>, for a key that no built-in prototype defines (the
  handler reads \<open>requestContext\<close>, \<open>authorizer\<close> and \<open>claims\<close>): it throws a
  \<open>TypeError\<close> on \<open>undefined\<close> and \<open>null\<close>, gives the member of an object that has
  one, and \<open>undefined\<close> in every other case.
\<close>

fun get_property :: "jsvalue \<Rightarrow> string \<Rightarrow> error + jsvalue" where
  "get_property JUndefined key = Inl TypeError"
| "get_property JNull key = Inl TypeError"
| "get_property (JObject members) key =
     Inr (case map_of members key of None \<Rightarrow> JUndefined | Some v \<Rightarrow> v)"
| "get_property v key = Inr JUndefined"

text \<open>The expression \<open>event.requestContext.authorizer.claims\<close>, read from the left.\<close>

definition authorizer_claims :: "jsvalue \<Rightarrow> error + jsvalue" where
  "authorizer_claims event =
     (case get_property event ''requestContext'' of
        Inl e \<Rightarrow> Inl e
      | Inr requestContext \<Rightarrow>
          (case get_property requestContext ''authorizer'' of
             Inl e \<Rightarrow> Inl e
           | Inr authorizer \<Rightarrow> get_property authorizer ''claims''))"

record 'b response =
  statusCode :: nat
  headers :: "(string \<times> string) list"
  body :: 'b

text \<open>
  \<open>exports.handler\<close>. \<open>JSON.stringify\<close> belongs to the runtime and is the first
  argument, with \<open>'b\<close> for the strings it returns; an exception thrown while the
  returned object is built is the result \<open>Inl\<close>.
\<close>

definition handler :: "(jsvalue \<Rightarrow> 'b) \<Rightarrow> jsvalue \<Rightarrow> jsvalue \<Rightarrow> error + 'b response" where
  "handler JSON_stringify event context =
     (case authorizer_claims event of
        Inl e \<Rightarrow> Inl e
      | Inr claims \<Rightarrow>
          Inr \<lparr>statusCode = 200,
               headers = [(''Content-Type'', ''application/json'')],
               body = JSON_stringify
                 (JObject [(''message'', JString ''Hello from protected API!''),
                           (''cognitoUser'', claims)])\<rparr>)"

section \<open>Properties of the string operations\<close>

lemma substring_from_0: "substring s 0 n = take n s"
  by (simp add: substring_def Let_def min_def)

lemma length_substring: "length (substring s a b) \<le> max a b - min a b"
  unfolding substring_def Let_def length_take length_drop by (auto simp: min_def max_def)

lemma set_substring: "a \<le> b \<Longrightarrow> set (substring s a b) \<subseteq> set (drop a s)"
proof -
  assume ab: "a \<le> b"
  have "substring s a b = take (min b (length s) - min a (length s)) (drop (min a (length s)) s)"
    using ab by (simp add: substring_def Let_def min_def max_def)
  moreover have "drop (min a (length s)) s = drop a s"
    by (simp add: min_def)
  ultimately show ?thesis by (simp add: set_take_subset)
qed

lemma replace_class_single:
  "replace_class matches [r] s = map (\<lambda>c. if matches c then r else c) s"
  by (induction s) (simp_all add: replace_class_def)

lemma set_replace_word: "set (replace_word pattern replacement s) \<subseteq> set s \<union> set replacement"
proof (induction pattern replacement s rule: replace_word.induct)
  case (1 pattern replacement)
  then show ?case by simp
next
  case (2 pattern replacement c cs)
  show ?case
  proof (cases "pattern \<noteq> [] \<and> prefix pattern (c # cs)")
    case True
    have "set (drop (length pattern) (c # cs)) \<subseteq> set (c # cs)" by (rule set_drop_subset)
    with 2(1) [OF True] True show ?thesis by (simp del: drop_Suc_Cons) blast
  next
    case False
    with 2(2) [OF False] show ?thesis by auto
  qed
qed

lemma length_replace_word:
  "length replacement \<le> length pattern \<Longrightarrow> length (replace_word pattern replacement s) \<le> length s"
proof (induction pattern replacement s rule: replace_word.induct)
  case (1 pattern replacement)
  then show ?case by simp
next
  case (2 pattern replacement c cs)
  show ?case
  proof (cases "pattern \<noteq> [] \<and> prefix pattern (c # cs)")
    case True
    then have "length pattern \<le> length (c # cs)" using prefix_length_le by blast
    with 2(1) [OF True 2(3)] 2(3) True show ?thesis by (simp del: drop_Suc_Cons)
  next
    case False
    with 2(2) [OF False 2(3)] show ?thesis by auto
  qed
qed

section \<open>The steps of the domain prefix\<close>

lemma label_unit_not_upper: "label_unit c \<Longrightarrow> \<not> upper_case_unit c"
  by (auto simp: label_unit_def upper_case_unit_def code_unit_def Let_def)

lemma label_unit_auth: "c \<in> set ''auth'' \<Longrightarrow> label_unit c"
  by (auto simp: label_unit_def code_unit_def Let_def)

lemma sanitize_label: "c \<in> set (stage_sanitize s) \<Longrightarrow> label_unit c"
  by (auto simp: stage_sanitize_def label_unit_def code_unit_def Let_def)

lemma length_sanitize: "length (stage_sanitize s) = length s"
  by (simp add: stage_sanitize_def)

lemma debrand_Nil: "stage_debrand [] = []"
  by (simp add: stage_debrand_def)

lemma debrand_Cons:
  "stage_debrand (c # cs) =
     (if prefix ''cognito'' (c # cs) then ''auth'' @ stage_debrand (drop 6 cs)
      else c # stage_debrand cs)"
proof -
  have "drop (length ''cognito'') (c # cs) = drop 6 cs"
    by (simp add: eval_nat_numeral)
  then show ?thesis
    unfolding stage_debrand_def
    by (subst replace_word.simps(2)) (simp del: replace_word.simps)
qed

text \<open>
  The first place where the de-branded string leaves the original one holds the \<open>a\<close> of
  \<open>auth\<close>: a word without \<open>a\<close> that starts the de-branded string starts the original.
\<close>

lemma debrand_prefix:
  "CHR ''a'' \<notin> set p \<Longrightarrow> prefix p (stage_debrand s) \<Longrightarrow> prefix p s"
proof (induction s arbitrary: p rule: length_induct)
  case (1 s)
  show ?case
  proof (cases s)
    case Nil
    with 1(3) show ?thesis by (simp add: debrand_Nil)
  next
    case (Cons c cs)
    show ?thesis
    proof (cases "prefix ''cognito'' (c # cs)")
      case True
      then have "stage_debrand s = CHR ''a'' # ''uth'' @ stage_debrand (drop 6 cs)"
        using Cons by (simp only: debrand_Cons if_True append_Cons append_Nil)
      with 1(2,3) have "p = []" by (cases p) (auto simp: prefix_Cons)
      then show ?thesis by simp
    next
      case False
      then have eq: "stage_debrand s = c # stage_debrand cs"
        using Cons by (simp only: debrand_Cons if_False)
      show ?thesis
      proof (cases p)
        case Nil
        then show ?thesis by simp
      next
        case (Cons d p')
        with 1(3) eq have "d = c" "prefix p' (stage_debrand cs)" by (simp_all add: prefix_Cons)
        moreover have "CHR ''a'' \<notin> set p'" using 1(2) Cons by simp
        moreover have "length cs < length s" using \<open>s = c # cs\<close> by simp
        ultimately have "prefix p' cs" using 1(1) by blast
        then show ?thesis using \<open>d = c\<close> Cons \<open>s = c # cs\<close> by simp
      qed
    qed
  qed
qed

text \<open>
  No \<open>cognito\<close> is left: one cannot start inside or at an inserted \<open>auth\<close>, and one
  that starts at a kept character would have been found in the original string.
\<close>

lemma debrand_no_cognito: "\<not> sublist ''cognito'' (stage_debrand s)"
proof (induction s rule: length_induct)
  case (1 s)
  show ?case
  proof (cases s)
    case Nil
    then show ?thesis by (simp add: debrand_Nil)
  next
    case (Cons c cs)
    show ?thesis
    proof (cases "prefix ''cognito'' (c # cs)")
      case True
      then have eq: "stage_debrand s = ''auth'' @ stage_debrand (drop 6 cs)"
        using Cons by (simp only: debrand_Cons if_True)
      have "length (drop 6 cs) < length s" using Cons by simp
      then have "\<not> sublist ''cognito'' (stage_debrand (drop 6 cs))" using 1 by blast
      then show ?thesis
        unfolding eq by (simp add: sublist_Cons_right prefix_Cons)
    next
      case False
      then have eq: "stage_debrand s = c # stage_debrand cs"
        using Cons by (simp only: debrand_Cons if_False)
      have "\<not> prefix ''cognito'' (c # stage_debrand cs)"
      proof
        assume "prefix ''cognito'' (c # stage_debrand cs)"
        then have c: "c = CHR ''c''" and "prefix ''ognito'' (stage_debrand cs)"
          by (simp_all add: prefix_Cons)
        then have "prefix ''ognito'' cs" using debrand_prefix [of "''ognito''" cs] by simp
        with c False show False by simp
      qed
      moreover have "\<not> sublist ''cognito'' (stage_debrand cs)" using 1 Cons by simp
      ultimately show ?thesis unfolding eq by (simp only: sublist_Cons_right) simp
    qed
  qed
qed

lemma domain_prefix_steps:
  "uniqueDomainPrefix stackName region rnd =
     stage_debrand (stage_sanitize (stage_truncate (stage_compose stackName region rnd)))"
proof -
  have "replace_class (\<lambda>c. \<not> label_unit c) ''-'' t = stage_sanitize t" for t
    by (simp add: replace_class_single stage_sanitize_def if_distrib cong: if_cong)
  then show ?thesis
    by (simp add: uniqueDomainPrefix_def stage_debrand_def stage_truncate_def
        stage_compose_def substring_from_0 toLowerCase_def)
qed

lemma domain_prefix_label_units:
  "c \<in> set (uniqueDomainPrefix stackName region rnd) \<Longrightarrow> label_unit c"
proof -
  assume "c \<in> set (uniqueDomainPrefix stackName region rnd)"
  then have "c \<in> set (stage_sanitize (stage_truncate (stage_compose stackName region rnd)))
      \<union> set ''auth''"
    using set_replace_word [of "''cognito''" "''auth''"]
    unfolding domain_prefix_steps stage_debrand_def by blast
  then show ?thesis using sanitize_label label_unit_auth by blast
qed

text \<open>
  The order can be observed: cutting to 63 characters before or after the de-branding
  gives different strings for a name that starts with \<open>cognito\<close> and is long enough.
\<close>

lemma truncate_debrand_order:
  "stage_debrand (stage_truncate (''cognito'' @ replicate 60 CHR ''x''))
     \<noteq> stage_truncate (stage_debrand (''cognito'' @ replicate 60 CHR ''x''))"
proof -
  have "length (stage_debrand (stage_truncate (''cognito'' @ replicate 60 CHR ''x''))) = 60"
    by code_simp
  moreover have "length (stage_truncate (stage_debrand (''cognito'' @ replicate 60 CHR ''x''))) = 63"
    by code_simp
  ultimately show ?thesis by auto
qed

section \<open>The specification's steps and the stages of the expression\<close>

lemma spec_lower_toLowerCase_unit: "\<forall>c. spec_lower c = toLowerCase_unit c"
  by code_simp

lemma spec_label_char_label_unit: "\<forall>c. spec_label_char c = label_unit c"
  by code_simp

lemma spec_compose_template:
  "spec_compose stackName region rnd = toLowerCase stackName @ ''-'' @ region @ ''-'' @ rnd"
  using spec_lower_toLowerCase_unit by (simp add: spec_compose_def toLowerCase_def)

lemma spec_truncate_substring: "spec_truncate s = substring s 0 63"
  by (simp add: spec_truncate_def substring_from_0)

lemma spec_sanitize_replace_class:
  "spec_sanitize s = replace_class (\<lambda>c. \<not> label_unit c) ''-'' s"
  using spec_label_char_label_unit
  by (simp add: replace_class_single spec_sanitize_def if_distrib cong: if_cong)

lemma find_word_bound: "find_word w s = Some i \<Longrightarrow> i + length w \<le> length s"
proof (induction s arbitrary: i)
  case Nil
  then show ?case by (simp split: if_splits)
next
  case (Cons c cs)
  show ?case
  proof (cases "prefix w (c # cs)")
    case True
    with Cons.prems have "i = 0" by simp
    with True show ?thesis using prefix_length_le by fastforce
  next
    case False
    with Cons.prems obtain j where "find_word w cs = Some j" "i = Suc j" by auto
    with Cons.IH show ?thesis by fastforce
  qed
qed

text \<open>Without an occurrence the scan copies the string.\<close>

lemma replace_word_none:
  "find_word w s = None \<Longrightarrow> replace_word w r s = s"
  by (induction s) (auto split: if_splits)

text \<open>Up to the first occurrence the scan copies, there it replaces, and it goes on behind.\<close>

lemma replace_word_some:
  "w \<noteq> [] \<Longrightarrow> find_word w s = Some i \<Longrightarrow>
     replace_word w r s = take i s @ r @ replace_word w r (drop (i + length w) s)"
proof (induction s arbitrary: i)
  case Nil
  then show ?case by simp
next
  case (Cons c cs)
  show ?case
  proof (cases "prefix w (c # cs)")
    case True
    with Cons.prems have "i = 0" by simp
    with True Cons.prems(1) show ?thesis by simp
  next
    case False
    with Cons.prems obtain j where j: "find_word w cs = Some j" "i = Suc j" by auto
    from Cons.IH [OF Cons.prems(1) j(1)] False j(2) show ?thesis by simp
  qed
qed

lemma spec_debrand_replace_word: "spec_debrand s = replace_word ''cognito'' ''auth'' s"
proof (induction s rule: length_induct)
  case (1 s)
  show ?case
  proof (cases "find_word ''cognito'' s")
    case None
    then show ?thesis by (simp add: spec_debrand.simps [of s] replace_word_none)
  next
    case (Some i)
    then have "i + length ''cognito'' \<le> length s" by (rule find_word_bound)
    then have "length (drop (i + 7) s) < length s" by simp
    with 1 have "spec_debrand (drop (i + 7) s) = replace_word ''cognito'' ''auth'' (drop (i + 7) s)"
      by blast
    moreover have "replace_word ''cognito'' ''auth'' s =
        take i s @ ''auth'' @ replace_word ''cognito'' ''auth'' (drop (i + 7) s)"
    proof -
      have "replace_word ''cognito'' ''auth'' s =
          take i s @ ''auth'' @ replace_word ''cognito'' ''auth'' (drop (i + length ''cognito'') s)"
        using Some by (intro replace_word_some) simp_all
      moreover have "i + length ''cognito'' = i + 7" by simp
      ultimately show ?thesis by (simp only:)
    qed
    moreover have "spec_debrand s = take i s @ ''auth'' @ spec_debrand (drop (i + 7) s)"
      using Some by (simp add: spec_debrand.simps [of s])
    ultimately show ?thesis by (simp only:)
  qed
qed

section \<open>The domain prefix\<close>

text \<open>
  C1. The expression goes through four values, in the order of the specification: the
  lower-cased stack name, the region and the random suffix joined by hyphens; this
  string cut to at most 63 characters; the cut string with every character outside
  \<open>[a-z0-9-]\<close> turned into a hyphen; and that string with every \<open>cognito\<close> turned
  into \<open>auth\<close>, which is the domain prefix. No other order of the three steps goes
  through these values: at the string composed of the stack name
  \<open>cognito_xx...x\<close> (fifty \<open>x\<close>), the region \<open>us-east-1\<close> and the suffix
  \<open>abc123\<close>, truncating differs from sanitizing and from de-branding, and sanitizing
  the truncated string differs from de-branding it.
\<close>

theorem uniqueDomainPrefix_order:
  "uniqueDomainPrefix_chain stackName region rnd =
     [spec_compose stackName region rnd,
      spec_truncate (spec_compose stackName region rnd),
      spec_sanitize (spec_truncate (spec_compose stackName region rnd)),
      spec_debrand (spec_sanitize (spec_truncate (spec_compose stackName region rnd)))]
   \<and> uniqueDomainPrefix stackName region rnd =
       last (uniqueDomainPrefix_chain stackName region rnd)
   \<and> spec_compose (''cognito_'' @ replicate 50 CHR ''x'') ''us-east-1'' ''abc123''
       = ''cognito_'' @ replicate 50 CHR ''x'' @ ''-us-east-1-abc123''
   \<and> spec_truncate (''cognito_'' @ replicate 50 CHR ''x'' @ ''-us-east-1-abc123'')
       \<noteq> spec_sanitize (''cognito_'' @ replicate 50 CHR ''x'' @ ''-us-east-1-abc123'')
   \<and> spec_truncate (''cognito_'' @ replicate 50 CHR ''x'' @ ''-us-east-1-abc123'')
       \<noteq> spec_debrand (''cognito_'' @ replicate 50 CHR ''x'' @ ''-us-east-1-abc123'')
   \<and> spec_sanitize (spec_truncate (''cognito_'' @ replicate 50 CHR ''x'' @ ''-us-east-1-abc123''))
       \<noteq> spec_debrand (spec_truncate (''cognito_'' @ replicate 50 CHR ''x'' @ ''-us-east-1-abc123''))"
proof -
  let ?x = "''cognito_'' @ replicate 50 CHR ''x'' @ ''-us-east-1-abc123''"
  have chain: "uniqueDomainPrefix_chain stackName region rnd =
     [spec_compose stackName region rnd,
      spec_truncate (spec_compose stackName region rnd),
      spec_sanitize (spec_truncate (spec_compose stackName region rnd)),
      spec_debrand (spec_sanitize (spec_truncate (spec_compose stackName region rnd)))]"
    by (simp only: uniqueDomainPrefix_chain_def Let_def spec_compose_template
        spec_truncate_substring spec_sanitize_replace_class spec_debrand_replace_word)
  have final: "uniqueDomainPrefix stackName region rnd =
       last (uniqueDomainPrefix_chain stackName region rnd)"
    by (simp add: uniqueDomainPrefix_chain_def uniqueDomainPrefix_def Let_def)
  have "toLowerCase (''cognito_'' @ replicate 50 CHR ''x'') = ''cognito_'' @ replicate 50 CHR ''x''"
    by code_simp
  then have x: "spec_compose (''cognito_'' @ replicate 50 CHR ''x'') ''us-east-1'' ''abc123'' = ?x"
    by (simp only: spec_compose_template) simp
  have l1: "length (spec_truncate ?x) = 63" by code_simp
  have l2: "length (spec_sanitize ?x) = 75" by code_simp
  have l3: "length (spec_debrand ?x) = 72" by code_simp
  have l4: "length (spec_sanitize (spec_truncate ?x)) = 63" by code_simp
  have l5: "length (spec_debrand (spec_truncate ?x)) = 60" by code_simp
  have a: "spec_truncate ?x \<noteq> spec_sanitize ?x" using l1 l2 by auto
  have b: "spec_truncate ?x \<noteq> spec_debrand ?x" using l1 l3 by auto
  have c: "spec_sanitize (spec_truncate ?x) \<noteq> spec_debrand (spec_truncate ?x)"
    using l4 l5 by auto
  from chain final x a b c show ?thesis by blast
qed

text \<open>
  C2. Whatever the stack name, the region and the random suffix are, the domain prefix
  holds no underscore, no exclamation mark and no upper-case letter, the word
  \<open>cognito\<close> occurs nowhere in it, and it is at most 63 characters long.
\<close>

theorem uniqueDomainPrefix_sanitized:
  "CHR ''_'' \<notin> set (uniqueDomainPrefix stackName region rnd)
   \<and> CHR ''!'' \<notin> set (uniqueDomainPrefix stackName region rnd)
   \<and> (\<forall>c \<in> set (uniqueDomainPrefix stackName region rnd). \<not> upper_case_unit c)
   \<and> \<not> sublist ''cognito'' (uniqueDomainPrefix stackName region rnd)
   \<and> length (uniqueDomainPrefix stackName region rnd) \<le> 63"
proof -
  let ?p = "uniqueDomainPrefix stackName region rnd"
  have "\<not> label_unit CHR ''_''" "\<not> label_unit CHR ''!''"
    by (simp_all add: label_unit_def code_unit_def Let_def)
  then have a: "CHR ''_'' \<notin> set ?p" and b: "CHR ''!'' \<notin> set ?p"
    using domain_prefix_label_units by blast+
  have c: "\<forall>c \<in> set ?p. \<not> upper_case_unit c"
    using domain_prefix_label_units label_unit_not_upper by blast
  have d: "\<not> sublist ''cognito'' ?p"
    unfolding domain_prefix_steps by (rule debrand_no_cognito)
  have "length ?p \<le> length (stage_sanitize (stage_truncate (stage_compose stackName region rnd)))"
    unfolding domain_prefix_steps stage_debrand_def
    by (rule length_replace_word) simp
  also have "\<dots> \<le> 63"
    by (simp add: length_sanitize stage_truncate_def)
  finally have e: "length ?p \<le> 63" .
  from a b c d e show ?thesis by blast
qed

text \<open>
  The stack name \<open>My_Cognito_Stack!!\<close> in the region \<open>us-east-1\<close>, with the
  suffix \<open>abc123\<close>.
\<close>

theorem uniqueDomainPrefix_sanitized_witness:
  "uniqueDomainPrefix ''My_Cognito_Stack!!'' ''us-east-1'' ''abc123''
     = ''my-auth-stack---us-east-1-abc123''
   \<and> CHR ''_'' \<notin> set (uniqueDomainPrefix ''My_Cognito_Stack!!'' ''us-east-1'' ''abc123'')
   \<and> CHR ''!'' \<notin> set (uniqueDomainPrefix ''My_Cognito_Stack!!'' ''us-east-1'' ''abc123'')
   \<and> \<not> upper_case_unit CHR ''m''
   \<and> \<not> sublist ''cognito'' (uniqueDomainPrefix ''My_Cognito_Stack!!'' ''us-east-1'' ''abc123'')
   \<and> length (uniqueDomainPrefix ''My_Cognito_Stack!!'' ''us-east-1'' ''abc123'') \<le> 63"
proof -
  have v: "uniqueDomainPrefix ''My_Cognito_Stack!!'' ''us-east-1'' ''abc123''
     = ''my-auth-stack---us-east-1-abc123''"
    by code_simp
  have m: "CHR ''m'' \<in> set (uniqueDomainPrefix ''My_Cognito_Stack!!'' ''us-east-1'' ''abc123'')"
    unfolding v by simp
  show ?thesis
    using uniqueDomainPrefix_sanitized [of "''My_Cognito_Stack!!''" "''us-east-1''" "''abc123''"] v m
    by blast
qed

text \<open>
  C10. For every string \<open>r\<close> that \<open>Math.random().toString(36)\<close> can give, the random
  suffix holds only digits of \<open>0-9a-z\<close>, and it is at most six characters long; it can
  be shorter than six: one character for the random number one half (\<open>0.i\<close>), none at
  all for the random number zero (\<open>0\<close>).
\<close>

theorem randomSuffix_at_most_6:
  "(random_radix36 r \<longrightarrow> (\<forall>c \<in> set (randomSuffix r). radix36_digit c))
   \<and> length (randomSuffix r) \<le> 6
   \<and> random_radix36 ''0.i'' \<and> randomSuffix ''0.i'' = ''i''
   \<and> random_radix36 ''0'' \<and> randomSuffix ''0'' = []"
proof -
  have digits: "\<forall>c \<in> set (randomSuffix r). radix36_digit c" if "random_radix36 r"
  proof -
    have "set (randomSuffix r) \<subseteq> set (drop 2 r)"
      unfolding randomSuffix_def by (rule set_substring) simp
    moreover have "\<forall>c \<in> set (drop 2 r). radix36_digit c"
      using that by (auto simp: random_radix36_def list_all_iff)
    ultimately show ?thesis by blast
  qed
  have len: "length (randomSuffix r) \<le> 6"
    using length_substring [of r 2 8] by (simp add: randomSuffix_def)
  have half: "random_radix36 ''0.i'' \<and> randomSuffix ''0.i'' = ''i''"
    by (simp add: random_radix36_def radix36_digit_def randomSuffix_def substring_def)
  have zero: "random_radix36 ''0'' \<and> randomSuffix ''0'' = []"
    by (simp add: random_radix36_def randomSuffix_def substring_def)
  from digits len half zero show ?thesis by blast
qed

theorem randomSuffix_at_most_6_witness:
  "random_radix36 ''0.4fzyo82mvyq''
   \<and> randomSuffix ''0.4fzyo82mvyq'' = ''4fzyo8''
   \<and> radix36_digit CHR ''z''
   \<and> length (randomSuffix ''0.4fzyo82mvyq'') \<le> 6"
proof -
  have r: "random_radix36 ''0.4fzyo82mvyq''"
    by (simp add: random_radix36_def radix36_digit_def)
  have v: "randomSuffix ''0.4fzyo82mvyq'' = ''4fzyo8''"
    by (simp add: randomSuffix_def substring_def)
  have "CHR ''z'' \<in> set (randomSuffix ''0.4fzyo82mvyq'')"
    unfolding v by simp
  then show ?thesis
    using randomSuffix_at_most_6 [of "''0.4fzyo82mvyq''"] r v by blast
qed

section \<open>The handler\<close>

text \<open>
  Without an authorizer context the read of \<open>claims\<close> throws, and the handler returns
  no response.
\<close>

lemma handler_without_authorizer:
  "handler JSON_stringify (JObject [(''requestContext'', JObject [])]) context = Inl TypeError"
  by (simp add: handler_def authorizer_claims_def)

text \<open>
  C9, as stated, fails: the handler is handed the whole event, and an event can hold
  the bearer token. This event holds it among its headers, where the proxy integration
  puts the headers of the request, and the handler answers it with 200.
\<close>

theorem handler_receives_token_counterexample:
  "get_property
     (JObject [(''headers'', JObject [(''Authorization'', JString ''Bearer header.payload.signature'')]),
               (''requestContext'',
                JObject [(''authorizer'',
                  JObject [(''claims'', JObject [(''sub'', JString ''user-uuid'')])])])])
     ''headers''
     = Inr (JObject [(''Authorization'', JString ''Bearer header.payload.signature'')])
   \<and> handler id
     (JObject [(''headers'', JObject [(''Authorization'', JString ''Bearer header.payload.signature'')]),
               (''requestContext'',
                JObject [(''authorizer'',
                  JObject [(''claims'', JObject [(''sub'', JString ''user-uuid'')])])])])
     JUndefined
     = Inr \<lparr>statusCode = 200,
            headers = [(''Content-Type'', ''application/json'')],
            body = JObject [(''message'', JString ''Hello from protected API!''),
                            (''cognitoUser'', JObject [(''sub'', JString ''user-uuid'')])]\<rparr>"
  by (simp add: handler_def authorizer_claims_def)

text \<open>
  C9, amended. Of the event it is handed the handler reads the claims at
  \<open>event.requestContext.authorizer.claims\<close> and nothing else: whatever the other
  members of the event, of the request context and of the authorizer context are (a
  bearer token among the headers included), and whatever the claims are, it returns the
  status 200 with the serialised object of the fixed greeting and these claims as body.
  It checks nothing of its own.
\<close>

theorem handler_reads_claims_only:
  assumes "map_of event_members ''requestContext'' = Some (JObject context_members)"
    and "map_of context_members ''authorizer'' = Some (JObject authorizer_members)"
    and "map_of authorizer_members ''claims'' = Some claims"
  shows "handler JSON_stringify (JObject event_members) context =
           Inr \<lparr>statusCode = 200,
                headers = [(''Content-Type'', ''application/json'')],
                body = JSON_stringify
                  (JObject [(''message'', JString ''Hello from protected API!''),
                            (''cognitoUser'', claims)])\<rparr>"
  using assms by (simp add: handler_def authorizer_claims_def)

text \<open>
  An event of the proxy integration with a method, a path, the headers of the request
  and two claims; the body is left unserialised.
\<close>

theorem handler_reads_claims_only_witness:
  "handler (\<lambda>v. v)
     (JObject [(''httpMethod'', JString ''GET''),
               (''path'', JString ''/hello''),
               (''headers'', JObject [(''Authorization'', JString ''Bearer eyJ.eyJ.sig'')]),
               (''requestContext'',
                JObject [(''resourcePath'', JString ''/hello''),
                         (''authorizer'',
                          JObject [(''claims'',
                            JObject [(''sub'', JString ''user-uuid''),
                                     (''scope'', JString ''email openid profile'')])])])])
     JNull
     = Inr \<lparr>statusCode = 200,
            headers = [(''Content-Type'', ''application/json'')],
            body = JObject [(''message'', JString ''Hello from protected API!''),
                            (''cognitoUser'',
                             JObject [(''sub'', JString ''user-uuid''),
                                      (''scope'', JString ''email openid profile'')])]\<rparr>"
  using handler_reads_claims_only
    [of "[(''httpMethod'', JString ''GET''),
          (''path'', JString ''/hello''),
          (''headers'', JObject [(''Authorization'', JString ''Bearer eyJ.eyJ.sig'')]),
          (''requestContext'',
           JObject [(''resourcePath'', JString ''/hello''),
                    (''authorizer'',
                     JObject [(''claims'',
                       JObject [(''sub'', JString ''user-uuid''),
                                (''scope'', JString ''email openid profile'')])])])]"
        "[(''resourcePath'', JString ''/hello''),
          (''authorizer'',
           JObject [(''claims'',
             JObject [(''sub'', JString ''user-uuid''),
                      (''scope'', JString ''email openid profile'')])])]"
        "[(''claims'',
           JObject [(''sub'', JString ''user-uuid''),
                    (''scope'', JString ''email openid profile'')])]"
        "JObject [(''sub'', JString ''user-uuid''),
                  (''scope'', JString ''email openid profile'')]"
        "\<lambda>v. v" JNull]
  by simp

end
